theory Spec2Isabelle
  imports Complex_Main "HOL-Library.Word"
begin

section \<open>Numbers of \<^verbatim>\<open>hseries.c\<close>\<close>

text \<open>
  The program computes with three C types.
  \<^item> \<^verbatim>\<open>long double\<close> values are real numbers, and every operation on them rounds its
    result: the model takes the arithmetic as a parameter, a rounding function applied to
    each decimal constant, quotient, product, sum and difference, and the library's
    exponential \<^verbatim>\<open>expl\<close>. Comparisons and negation are exact. The conversion of a
    \<^verbatim>\<open>long\<close> or \<^verbatim>\<open>unsigned long\<close> to \<^verbatim>\<open>long double\<close> is taken as exact, as it is
    for integers of up to 64 bits in the extended format.
  \<^item> \<^verbatim>\<open>unsigned long\<close> and \<^verbatim>\<open>long\<close> are words of the same width \<^typ>\<open>'a\<close>
    (32 bits with MinGW on Windows, 64 bits on Linux); \<open>unat\<close> reads a word as
    \<^verbatim>\<open>unsigned long\<close>, \<open>sint\<close> as \<^verbatim>\<open>long\<close>. Passing an \<^verbatim>\<open>unsigned long\<close>
    where a \<^verbatim>\<open>long\<close> is expected keeps the bits.
  \<^item> What C leaves undefined is an error value: a conversion of a floating value that
    does not fit the integer type, the increment of a \<^verbatim>\<open>long\<close> that holds
    \<^verbatim>\<open>LONG_MAX\<close>, and a quotient \<^verbatim>\<open>1.0L/0\<close>, which is no real number.
\<close>

record ldarith =
  ld_round :: "real \<Rightarrow> real"
  ld_exp :: "real \<Rightarrow> real"

text \<open>Exact arithmetic: nothing is rounded, and \<^verbatim>\<open>expl\<close> is the exponential function.\<close>

definition exact :: ldarith where
  "exact = \<lparr>ld_round = (\<lambda>x. x), ld_exp = exp\<rparr>"

text \<open>
  What the theorems about particular thresholds need of the arithmetic, and what every
  binary floating-point format from \<^verbatim>\<open>double\<close> on provides: rounding is monotone and
  keeps every number with a significand of at most 53 bits and an exponent in the normal
  range of \<^verbatim>\<open>double\<close>; \<^verbatim>\<open>expl(0)\<close> is 1; and up to 700 in absolute value, where the
  exponential is a \<^verbatim>\<open>double\<close>, \<^verbatim>\<open>expl\<close> is within a thousandth of it.
\<close>

definition long_double_arith :: "ldarith \<Rightarrow> bool" where
  "long_double_arith A \<longleftrightarrow>
     mono (ld_round A)
     \<and> (\<forall>(k :: int) (e :: nat). \<bar>k\<bar> < 2 ^ 53 \<and> e \<le> 1022 \<longrightarrow>
           ld_round A (of_int k / 2 ^ e) = of_int k / 2 ^ e)
     \<and> ld_exp A 0 = 1
     \<and> (\<forall>x. \<bar>x\<bar> \<le> 700 \<longrightarrow> \<bar>ld_exp A x - exp x\<bar> \<le> exp x / 1024)"

datatype error = Cast_Out_Of_Range | Signed_Overflow | Division_By_Zero

text \<open>
  The decimal constants of lines 32 to 45. Where the program uses one, it uses the
  \<^verbatim>\<open>long double\<close> nearest to it.
\<close>

definition DELTA :: real where
  "DELTA = 1 / 1000000000"

definition EM_N_RATIO :: real where
  "EM_N_RATIO = 564 / 1000"

definition EM_N_RATIO_MEDIUM :: real where
  "EM_N_RATIO_MEDIUM = 5618 / 10000"

definition EM_N_RATIO_LARGE :: real where
  "EM_N_RATIO_LARGE = 56147 / 100000"

definition EM_N_RATIO_VERY_LARGE :: real where
  "EM_N_RATIO_VERY_LARGE = 56146 / 100000"

definition EM_N_RATIO_HUGE :: real where
  "EM_N_RATIO_HUGE = 5614596 / 10000000"

definition EM_N_RATIO_COLOSSAL :: real where
  "EM_N_RATIO_COLOSSAL = 5614595 / 10000000"

text \<open>
  The cast \<^verbatim>\<open>(unsigned long)x\<close> of a \<^verbatim>\<open>long double\<close>: the fractional part is
  discarded, and the behaviour is undefined unless the integral part fits.
\<close>

definition ulong_of_ldouble :: "real \<Rightarrow> error + 'a::len word" where
  "ulong_of_ldouble x =
     (if - 1 < x \<and> x < 2 ^ LENGTH('a)
      then Inr (word_of_int (if 0 \<le> x then \<lfloor>x\<rfloor> else \<lceil>x\<rceil>))
      else Inl Cast_Out_Of_Range)"

section \<open>The summation helper\<close>

text \<open>
  The \<^verbatim>\<open>for\<close> loop of \<^verbatim>\<open>harmonicSeriesEx\<close>, lines 64 to 65: \<^verbatim>\<open>i\<close> is a
  \<^verbatim>\<open>long\<close>, compared signed, and each round adds the rounded quotient \<^verbatim>\<open>1.0L/i\<close> to
  \<^verbatim>\<open>sum\<close>, rounds the sum, and increments \<^verbatim>\<open>i\<close>.
\<close>

function sum_loop :: "ldarith \<Rightarrow> 'a::len word \<Rightarrow> 'a word \<Rightarrow> real \<Rightarrow> error + real" where
  "sum_loop A i nEnd sum_v =
     (if i \<le>s nEnd then
        (if i = 0 then Inl Division_By_Zero
         else if sint i = 2 ^ (LENGTH('a) - 1) - 1 then Inl Signed_Overflow
         else sum_loop A (i + 1) nEnd
                (ld_round A (sum_v + ld_round A (1 / real_of_int (sint i)))))
      else Inr sum_v)"
  by pat_completeness auto

termination sum_loop
proof (relation "measure (\<lambda>(A, i, nEnd, s). nat (sint nEnd + 1 - sint i))")
  show "wf (measure (\<lambda>(A :: ldarith, i :: 'a word, nEnd :: 'a word, s :: real).
      nat (sint nEnd + 1 - sint i)))"
    by simp
next
  fix A :: ldarith and i nEnd :: "'a word" and sum_v :: real
  assume le: "i \<le>s nEnd" and nmax: "sint i \<noteq> 2 ^ (LENGTH('a) - 1) - 1"
  have lt: "sint i < 2 ^ (LENGTH('a) - 1)" by (rule sint_lt)
  have ge: "- (2 ^ (LENGTH('a) - 1)) \<le> sint i" by (rule sint_ge)
  have "i + 1 = word_of_int (sint i + 1)" by simp
  then have "sint (i + 1) = signed_take_bit (LENGTH('a) - 1) (sint i + 1)"
    by (simp only: sint_sbintrunc')
  also have "\<dots> = sint i + 1"
    using lt ge nmax by (intro signed_take_bit_int_eq_self) auto
  finally have "sint (i + 1) = sint i + 1" .
  moreover from le have "sint i \<le> sint nEnd" by (simp add: word_sle_eq)
  ultimately show "((A, i + 1, nEnd, ld_round A (sum_v + ld_round A (1 / real_of_int (sint i)))),
      (A, i, nEnd, sum_v)) \<in> measure (\<lambda>(A, i, nEnd, s). nat (sint nEnd + 1 - sint i))"
    by simp
qed

declare sum_loop.simps [simp del]

text \<open>\<^verbatim>\<open>harmonicSeriesEx\<close>, lines 52 to 68, and \<^verbatim>\<open>harmonicSeries\<close>, lines 71 to 75.\<close>

definition harmonicSeriesEx :: "ldarith \<Rightarrow> 'a::len word \<Rightarrow> 'a word \<Rightarrow> error + real" where
  "harmonicSeriesEx A nStart nEnd =
     (if (nStart = 0 \<or> nEnd = 0) \<or> nEnd <s nStart then Inr 0
      else sum_loop A nStart nEnd 0)"

definition harmonicSeries :: "ldarith \<Rightarrow> 'a::len word \<Rightarrow> error + real" where
  "harmonicSeries A nv = harmonicSeriesEx A 1 nv"

section \<open>The threshold search\<close>

text \<open>
  The initial guess, lines 95 to 105: the chain of magnitude bands, each branch casting
  the rounded product of \<^verbatim>\<open>expl(M)\<close> and its ratio to \<^verbatim>\<open>unsigned long\<close>.
\<close>

definition initial_guess :: "ldarith \<Rightarrow> real \<Rightarrow> error + 'a::len word" where
  "initial_guess A M =
     (if M \<ge> 20 then ulong_of_ldouble (ld_round A (ld_exp A M * ld_round A EM_N_RATIO_COLOSSAL))
      else if M \<ge> 18 then ulong_of_ldouble (ld_round A (ld_exp A M * ld_round A EM_N_RATIO_HUGE))
      else if M \<ge> 16 then
        ulong_of_ldouble (ld_round A (ld_exp A M * ld_round A EM_N_RATIO_VERY_LARGE))
      else if M \<ge> 12 then ulong_of_ldouble (ld_round A (ld_exp A M * ld_round A EM_N_RATIO_LARGE))
      else if M \<ge> 9 then ulong_of_ldouble (ld_round A (ld_exp A M * ld_round A EM_N_RATIO_MEDIUM))
      else ulong_of_ldouble (ld_round A (ld_exp A M * ld_round A EM_N_RATIO)))"

text \<open>
  The variables the refinement loop reads and writes: the guess \<^verbatim>\<open>n\<close>, the running
  \<^verbatim>\<open>sum\<close>, the global \<^verbatim>\<open>G_sum\<close> and the counter \<^verbatim>\<open>num_tests\<close>. The \<^verbatim>\<open>printf\<close>
  calls of the verbose mode change none of them and are left out.
\<close>

record 'w search_state =
  st_n :: 'w
  st_sum :: real
  st_G_sum :: real
  st_num_tests :: nat

text \<open>The loop condition of line 110 and the loop body of lines 112 to 122.\<close>

definition loop_cond :: "ldarith \<Rightarrow> real \<Rightarrow> 'a::len word search_state \<Rightarrow> bool" where
  "loop_cond A M st \<longleftrightarrow> ld_round A (st_sum st - M) > - ld_round A DELTA \<and> st_n st > 0"

definition loop_body :: "ldarith \<Rightarrow> 'a::len word search_state \<Rightarrow> 'a word search_state" where
  "loop_body A st =
     \<lparr>st_n = st_n st - 1,
      st_sum = ld_round A (st_sum st - ld_round A (1 / real (unat (st_n st)))),
      st_G_sum = st_sum st,
      st_num_tests = st_num_tests st + 1\<rparr>"

function refine :: "ldarith \<Rightarrow> real \<Rightarrow> 'a::len word search_state \<Rightarrow> 'a word search_state" where
  "refine A M st = (if loop_cond A M st then refine A M (loop_body A st) else st)"
  by pat_completeness auto
termination
proof (relation "measure (\<lambda>(A, M, st). unat (st_n st))")
  show "wf (measure (\<lambda>(A :: ldarith, M :: real, st :: 'a word search_state). unat (st_n st)))"
    by simp
next
  fix A :: ldarith and M :: real and st :: "'a word search_state"
  assume "loop_cond A M st"
  then have "st_n st \<noteq> 0" by (auto simp: loop_cond_def)
  then have "unat (st_n st - 1) < unat (st_n st)" by (rule measure_unat)
  then show "((A, M, loop_body A st), (A, M, st)) \<in> measure (\<lambda>(A, M, st). unat (st_n st))"
    by (simp add: loop_body_def)
qed

declare refine.simps [simp del]

text \<open>
  The number of rounds of the loop, read off the program's own counter \<^verbatim>\<open>num_tests\<close>.
\<close>

definition num_steps :: "ldarith \<Rightarrow> real \<Rightarrow> 'a::len word search_state \<Rightarrow> nat" where
  "num_steps A M st = st_num_tests (refine A M st) - st_num_tests st"

text \<open>
  The state at the loop head, lines 95 to 108: the guess, its full sum, and \<^verbatim>\<open>G_sum\<close>
  set to that sum.
\<close>

definition search_init :: "ldarith \<Rightarrow> real \<Rightarrow> error + 'a::len word search_state" where
  "search_init A M =
     (case initial_guess A M of
        Inl e \<Rightarrow> Inl e
      | Inr n0 \<Rightarrow>
          (case harmonicSeries A n0 of
             Inl e \<Rightarrow> Inl e
           | Inr s0 \<Rightarrow> Inr \<lparr>st_n = n0, st_sum = s0, st_G_sum = s0, st_num_tests = 0\<rparr>))"

text \<open>
  \<^verbatim>\<open>hseriesThreshold\<close>, lines 78 to 134: the value returned, \<^verbatim>\<open>n + 1UL\<close>, paired with
  the value the call leaves in the global \<^verbatim>\<open>G_sum\<close>.
\<close>

definition hseriesThreshold :: "ldarith \<Rightarrow> real \<Rightarrow> error + ('a::len word \<times> real)" where
  "hseriesThreshold A M =
     (case search_init A M of
        Inl e \<Rightarrow> Inl e
      | Inr st0 \<Rightarrow> (let st = refine A M st0 in Inr (st_n st + 1, st_G_sum st)))"

section \<open>The command line\<close>

text \<open>
  \<^verbatim>\<open>strtold\<close> belongs to the C library, not to the program: it is a parameter of
  \<^verbatim>\<open>main\<close>, giving for the argument string the value parsed and the characters left
  at \<^verbatim>\<open>end\<close>. It can return values that are no real numbers.
\<close>

datatype ldouble = Finite real | PosInf | NegInf | NaN

text \<open>The comparison \<^verbatim>\<open>M < 0.0L\<close> of line 154; it is false for a NaN.\<close>

fun ld_negative :: "ldouble \<Rightarrow> bool" where
  "ld_negative (Finite x) = (x < 0)"
| "ld_negative NegInf = True"
| "ld_negative PosInf = False"
| "ld_negative NaN = False"

text \<open>
  \<^verbatim>\<open>hseriesThreshold\<close> at any \<^verbatim>\<open>long double\<close>. At plus infinity and at a NaN the
  product \<^verbatim>\<open>expl(M) * ratio\<close> is infinite or a NaN, and its cast is undefined. At minus
  infinity every band test fails, \<^verbatim>\<open>expl(M)\<close> is 0, so \<^verbatim>\<open>n\<close> and the sum are 0 and
  the loop, which needs \<^verbatim>\<open>n > 0\<close>, is not entered.
\<close>

fun hseriesThreshold_ld :: "ldarith \<Rightarrow> ldouble \<Rightarrow> error + ('a::len word \<times> real)" where
  "hseriesThreshold_ld A (Finite x) = hseriesThreshold A x"
| "hseriesThreshold_ld A PosInf = Inl Cast_Out_Of_Range"
| "hseriesThreshold_ld A NaN = Inl Cast_Out_Of_Range"
| "hseriesThreshold_ld A NegInf = Inr (1, 0)"

text \<open>
  What \<^verbatim>\<open>main\<close> does, in order: the lines it prints (a message per \<^verbatim>\<open>printf\<close>, with
  the values it formats), the call of the search, and the value it returns.
\<close>

datatype 'w message =
    Usage string
  | Invalid_Input string
  | Must_Be_Nonnegative
  | Threshold_Line ldouble 'w
  | Sum_Line 'w real

datatype 'w event =
    Print "'w message"
  | Call_hseriesThreshold ldouble
  | Return int
  | Undefined error

text \<open>
  \<^verbatim>\<open>main\<close>, lines 137 to 167. The program name \<^verbatim>\<open>argv[0]\<close> and the remaining
  arguments are separate parameters, so \<^verbatim>\<open>argc\<close> is one more than the number of
  arguments.
\<close>

definition main :: "ldarith \<Rightarrow> (string \<Rightarrow> ldouble \<times> string) \<Rightarrow> string \<Rightarrow> string list \<Rightarrow> 'a::len word event list" where
  "main A strtold prog args =
     (if 1 + length args \<noteq> 2 then [Print (Usage prog), Return (- 1)]
      else
        (case strtold (args ! 0) of
           (M, end_p) \<Rightarrow>
             if end_p \<noteq> [] then [Print (Invalid_Input prog), Return (- 1)]
             else if ld_negative M then [Print Must_Be_Nonnegative, Return (- 1)]
             else
               Call_hseriesThreshold M #
               (case hseriesThreshold_ld A M of
                  Inl e \<Rightarrow> [Undefined e]
                | Inr (N, G) \<Rightarrow> [Print (Threshold_Line M N), Print (Sum_Line N G), Return 0])))"

text \<open>
  Values of the C library's \<^verbatim>\<open>strtold\<close> on the strings used as examples below: the
  value parsed and the characters left over. A string outside the table is left
  unconverted.
\<close>

definition strtold_examples :: "string \<Rightarrow> ldouble \<times> string" where
  "strtold_examples s =
     (if s = ''inf'' then (PosInf, [])
      else if s = ''nan'' then (NaN, [])
      else if s = ''0'' then (Finite 0, [])
      else if s = ''1'' then (Finite 1, [])
      else if s = ''-1'' then (Finite (- 1), [])
      else if s = ''1x'' then (Finite 1, ''x'')
      else (Finite 0, s))"

section \<open>The harmonic sums of the specification\<close>

text \<open>
  The sum of \<open>1/i\<close> for \<open>i\<close> from 1 to \<open>N\<close>; and the sum over an interval of integers
  accumulated in ascending order, every quotient and every partial sum rounded.
\<close>

primrec harmonic :: "nat \<Rightarrow> real" where
  "harmonic 0 = 0"
| "harmonic (Suc k) = harmonic k + 1 / real (Suc k)"

definition ascending_sum :: "ldarith \<Rightarrow> int \<Rightarrow> int \<Rightarrow> real" where
  "ascending_sum A a b =
     foldl (\<lambda>s i. ld_round A (s + ld_round A (1 / real_of_int i))) 0 [a..b]"

section \<open>Definitions of the specification and of the proofs\<close>

text \<open>
  The ratio of the estimator as the specification describes it: one constant for each
  magnitude band of \<open>M\<close>.
\<close>

definition ratio :: "real \<Rightarrow> real" where
  "ratio M =
     (if M \<ge> 20 then EM_N_RATIO_COLOSSAL
      else if M \<ge> 18 then EM_N_RATIO_HUGE
      else if M \<ge> 16 then EM_N_RATIO_VERY_LARGE
      else if M \<ge> 12 then EM_N_RATIO_LARGE
      else if M \<ge> 9 then EM_N_RATIO_MEDIUM
      else EM_N_RATIO)"

text \<open>
  The minimal crossing point of a threshold: the first \<open>N\<close> whose harmonic sum exceeds
  \<open>M\<close>.
\<close>

definition crossing_point :: "real \<Rightarrow> nat \<Rightarrow> bool" where
  "crossing_point M N \<longleftrightarrow> M < harmonic N \<and> (\<forall>k<N. harmonic k \<le> M)"



section \<open>The arithmetic\<close>

lemma ld_round_exact [simp]: "ld_round exact x = x"
  by (simp add: exact_def)

lemma ld_exp_exact [simp]: "ld_exp exact x = exp x"
  by (simp add: exact_def)

lemma long_double_arith_exact: "long_double_arith exact"
  by (simp add: long_double_arith_def mono_def)

lemma ld_round_mono: "long_double_arith A \<Longrightarrow> x \<le> y \<Longrightarrow> ld_round A x \<le> ld_round A y"
  by (simp add: long_double_arith_def mono_def)

lemma ld_round_dyadic:
  "long_double_arith A \<Longrightarrow> \<bar>k\<bar> < 2 ^ 53 \<Longrightarrow> e \<le> 1022 \<Longrightarrow>
     ld_round A (of_int k / 2 ^ e) = of_int k / 2 ^ e"
  by (simp add: long_double_arith_def)

lemma ld_round_values:
  assumes "long_double_arith A"
  shows "ld_round A 0 = 0" "ld_round A 1 = 1" "ld_round A (9 / 16) = 9 / 16"
    "ld_round A (37 / 64) = 37 / 64" "ld_round A (7 / 4) = 7 / 4"
    "ld_round A (1 / 2 ^ 30) = 1 / 2 ^ 30"
  using ld_round_dyadic [OF assms, of 0 0] ld_round_dyadic [OF assms, of 1 0]
    ld_round_dyadic [OF assms, of 9 4] ld_round_dyadic [OF assms, of 37 6]
    ld_round_dyadic [OF assms, of 7 2] ld_round_dyadic [OF assms, of 1 30]
  by simp_all

lemma ld_round_ratio:
  assumes "long_double_arith A"
  shows "9 / 16 \<le> ld_round A EM_N_RATIO" "ld_round A EM_N_RATIO \<le> 37 / 64"
  using ld_round_mono [OF assms, of "9 / 16" EM_N_RATIO]
    ld_round_mono [OF assms, of EM_N_RATIO "37 / 64"] ld_round_values [OF assms]
  by (simp_all add: EM_N_RATIO_def)

lemma ld_round_DELTA:
  assumes "long_double_arith A"
  shows "0 < ld_round A DELTA"
proof -
  have "(1 / 2 ^ 30 :: real) \<le> DELTA" by (simp add: DELTA_def)
  from ld_round_mono [OF assms this] ld_round_values(6) [OF assms]
  have "(1 / 2 ^ 30 :: real) \<le> ld_round A DELTA" by simp
  moreover have "(0 :: real) < 1 / 2 ^ 30" by simp
  ultimately show ?thesis by linarith
qed

lemma ld_exp_0: "long_double_arith A \<Longrightarrow> ld_exp A 0 = 1"
  by (simp add: long_double_arith_def)

lemma ld_exp_1:
  assumes "long_double_arith A"
  shows "5 / 2 * (1023 / 1024) \<le> ld_exp A 1" "ld_exp A 1 \<le> 3 * (1025 / 1024)"
proof -
  from assms have "\<bar>ld_exp A 1 - exp 1\<bar> \<le> exp 1 / 1024"
    by (simp add: long_double_arith_def)
  moreover have "5 / 2 \<le> exp (1 :: real)"
    using exp_lower_Taylor_quadratic [of "1 :: real"] by simp
  moreover have "exp (1 :: real) \<le> 3" by (rule exp_le)
  ultimately show "5 / 2 * (1023 / 1024) \<le> ld_exp A 1" "ld_exp A 1 \<le> 3 * (1025 / 1024)"
    by linarith+
qed

section \<open>Signed words\<close>

lemma sint_Suc_word:
  fixes i :: "'a::len word"
  assumes "sint i \<noteq> 2 ^ (LENGTH('a) - 1) - 1"
  shows "sint (i + 1) = sint i + 1"
proof -
  have lt: "sint i < 2 ^ (LENGTH('a) - 1)" by (rule sint_lt)
  have ge: "- (2 ^ (LENGTH('a) - 1)) \<le> sint i" by (rule sint_ge)
  have "i + 1 = word_of_int (sint i + 1)" by simp
  then have "sint (i + 1) = signed_take_bit (LENGTH('a) - 1) (sint i + 1)"
    by (simp only: sint_sbintrunc')
  also have "\<dots> = sint i + 1"
    using lt ge assms by (intro signed_take_bit_int_eq_self) auto
  finally show ?thesis .
qed

lemma sint_le_max:
  fixes i :: "'a::len word"
  shows "sint i \<le> 2 ^ (LENGTH('a) - 1) - 1"
  using sint_lt [of i] by simp

lemma sint_eq_0_iff: "sint i = 0 \<longleftrightarrow> i = 0"
proof
  assume z: "sint i = 0"
  have "i = word_of_int (sint i)" by simp
  with z show "i = 0" by simp
next
  assume "i = 0"
  then show "sint i = 0" by simp
qed

lemma sint_nonneg_unat:
  fixes nv :: "'a::len word"
  assumes "0 \<le> sint nv"
  shows "sint nv = int (unat nv)"
proof -
  have "sint nv < 2 ^ (LENGTH('a) - 1)" by (rule sint_lt)
  also have "(2::int) ^ (LENGTH('a) - 1) \<le> 2 ^ LENGTH('a)" by (rule power_increasing) simp_all
  finally have "take_bit LENGTH('a) (sint nv) = sint nv"
    using assms by (simp add: take_bit_int_eq_self)
  then have "uint nv = sint nv" by (simp add: uint_sint)
  then show ?thesis by simp
qed

lemma sint_one: "1 < LENGTH('a::len) \<Longrightarrow> sint (1 :: 'a word) = 1"
  by (simp add: sint_word_01 signed_take_bit_int_eq_self)

lemma positive_long_length:
  fixes nv :: "'a::len word"
  assumes "0 < sint nv"
  shows "1 < LENGTH('a)"
proof (rule ccontr)
  assume "\<not> 1 < LENGTH('a)"
  then have "LENGTH('a) = 1" using len_gt_0 [where 'a='a] by linarith
  with sint_lt [of nv] assms show False by simp
qed

section \<open>The loop of the summation helper\<close>

lemma sum_loop_finite:
  fixes i nEnd :: "'a::len word"
  assumes "\<not> (sint i \<le> 0 \<and> 0 \<le> sint nEnd)" and "sint nEnd \<noteq> 2 ^ (LENGTH('a) - 1) - 1"
  shows "sum_loop A i nEnd s =
    Inr (foldl (\<lambda>s i. ld_round A (s + ld_round A (1 / real_of_int i))) s [sint i..sint nEnd])"
  using assms
proof (induction A i nEnd s rule: sum_loop.induct)
  case (1 A i nEnd s)
  show ?case
  proof (cases "i \<le>s nEnd")
    case False
    then have "sint nEnd < sint i" by (simp add: word_sle_eq)
    with False show ?thesis by (simp add: sum_loop.simps [of A i nEnd s])
  next
    case True
    then have le: "sint i \<le> sint nEnd" by (simp add: word_sle_eq)
    with "1.prems" have nz: "i \<noteq> 0" by auto
    from le "1.prems" sint_le_max [of nEnd] have nmax: "sint i \<noteq> 2 ^ (LENGTH('a) - 1) - 1"
      by linarith
    have suc: "sint (i + 1) = sint i + 1" using nmax by (rule sint_Suc_word)
    have "\<not> (sint (i + 1) \<le> 0 \<and> 0 \<le> sint nEnd)" using "1.prems" suc by linarith
    with "1.IH" [OF True nz nmax] "1.prems"
    have IH: "sum_loop A (i + 1) nEnd (ld_round A (s + ld_round A (1 / real_of_int (sint i)))) =
       Inr (foldl (\<lambda>s i. ld_round A (s + ld_round A (1 / real_of_int i)))
              (ld_round A (s + ld_round A (1 / real_of_int (sint i)))) [sint (i + 1)..sint nEnd])"
      by simp
    have "[sint i..sint nEnd] = sint i # [sint i + 1..sint nEnd]"
      using le by (simp add: upto_rec1)
    with True nz nmax IH suc show ?thesis
      by (simp add: sum_loop.simps [of A i nEnd s])
  qed
qed

lemma sum_loop_zero:
  fixes i nEnd :: "'a::len word"
  assumes "sint i \<le> 0" and "0 \<le> sint nEnd"
  shows "sum_loop A i nEnd s = Inl Division_By_Zero"
  using assms
proof (induction A i nEnd s rule: sum_loop.induct)
  case (1 A i nEnd s)
  from "1.prems" have True: "i \<le>s nEnd" by (simp add: word_sle_eq)
  show ?case
  proof (cases "i = 0")
    case True
    with \<open>i \<le>s nEnd\<close> show ?thesis by (subst sum_loop.simps) simp
  next
    case False
    then have "sint i \<noteq> 0" by (simp add: sint_eq_0_iff)
    with "1.prems" have neg: "sint i < 0" by simp
    have "(0::int) \<le> 2 ^ (LENGTH('a) - 1) - 1" by simp
    with neg have nmax: "sint i \<noteq> 2 ^ (LENGTH('a) - 1) - 1" by linarith
    have suc: "sint (i + 1) = sint i + 1" using nmax by (rule sint_Suc_word)
    with neg have "sint (i + 1) \<le> 0" by simp
    with "1.IH" [OF True False nmax] "1.prems"
    have "sum_loop A (i + 1) nEnd (ld_round A (s + ld_round A (1 / real_of_int (sint i))))
        = Inl Division_By_Zero" by simp
    with True False nmax show ?thesis by (simp add: sum_loop.simps [of A i nEnd s])
  qed
qed

lemma sum_loop_overflow:
  fixes i nEnd :: "'a::len word"
  assumes "0 < sint i" and "sint nEnd = 2 ^ (LENGTH('a) - 1) - 1"
  shows "sum_loop A i nEnd s = Inl Signed_Overflow"
  using assms
proof (induction A i nEnd s rule: sum_loop.induct)
  case (1 A i nEnd s)
  from "1.prems" sint_le_max [of i] have True: "i \<le>s nEnd" by (simp add: word_sle_eq)
  from "1.prems" have nz: "i \<noteq> 0" by auto
  show ?case
  proof (cases "sint i = 2 ^ (LENGTH('a) - 1) - 1")
    case True
    with \<open>i \<le>s nEnd\<close> nz show ?thesis by (simp add: sum_loop.simps [of A i nEnd s])
  next
    case False
    have suc: "sint (i + 1) = sint i + 1" using False by (rule sint_Suc_word)
    with "1.prems" have "0 < sint (i + 1)" by simp
    with "1.IH" [OF True nz False] "1.prems"
    have "sum_loop A (i + 1) nEnd (ld_round A (s + ld_round A (1 / real_of_int (sint i))))
        = Inl Signed_Overflow" by simp
    with True False nz show ?thesis by (simp add: sum_loop.simps [of A i nEnd s])
  qed
qed

lemma harmonicSeriesEx_cases:
  fixes nStart nEnd :: "'a::len word"
  shows "harmonicSeriesEx A nStart nEnd =
           (if nStart = 0 \<or> nEnd = 0 \<or> sint nEnd < sint nStart then Inr 0
            else if sint nStart < 0 \<and> 0 < sint nEnd then Inl Division_By_Zero
            else if sint nEnd = 2 ^ (LENGTH('a) - 1) - 1 then Inl Signed_Overflow
            else Inr (ascending_sum A (sint nStart) (sint nEnd)))"
proof -
  consider (guard) "nStart = 0 \<or> nEnd = 0 \<or> sint nEnd < sint nStart"
    | (zero) "nStart \<noteq> 0" "nEnd \<noteq> 0" "sint nStart \<le> sint nEnd" "sint nStart < 0 \<and> 0 < sint nEnd"
    | (over) "nStart \<noteq> 0" "nEnd \<noteq> 0" "sint nStart \<le> sint nEnd" "\<not> (sint nStart < 0 \<and> 0 < sint nEnd)"
        "sint nEnd = 2 ^ (LENGTH('a) - 1) - 1"
    | (fin) "nStart \<noteq> 0" "nEnd \<noteq> 0" "sint nStart \<le> sint nEnd" "\<not> (sint nStart < 0 \<and> 0 < sint nEnd)"
        "sint nEnd \<noteq> 2 ^ (LENGTH('a) - 1) - 1"
    by linarith
  then show ?thesis
  proof cases
    case guard
    then show ?thesis by (auto simp: harmonicSeriesEx_def word_sless_alt)
  next
    case zero
    then have "sum_loop A nStart nEnd 0 = Inl Division_By_Zero"
      by (intro sum_loop_zero) auto
    with zero show ?thesis by (simp add: harmonicSeriesEx_def word_sless_alt)
  next
    case over
    have "sint nStart \<noteq> 0" "sint nEnd \<noteq> 0"
      using over(1,2) by (simp_all add: sint_eq_0_iff)
    moreover have "(0::int) \<le> 2 ^ (LENGTH('a) - 1) - 1" by simp
    ultimately have "0 < sint nStart" using over by linarith
    then have "sum_loop A nStart nEnd 0 = Inl Signed_Overflow"
      using over by (intro sum_loop_overflow) auto
    moreover have "\<not> (nStart = 0 \<or> nEnd = 0 \<or> sint nEnd < sint nStart)"
      using over by simp
    moreover have "\<not> ((nStart = 0 \<or> nEnd = 0) \<or> nEnd <s nStart)"
      using over by (simp add: word_sless_alt)
    ultimately show ?thesis
      unfolding harmonicSeriesEx_def using over(4,5) by (simp only: if_False if_True simp_thms)
  next
    case fin
    have "sint nStart \<noteq> 0" "sint nEnd \<noteq> 0"
      using fin(1,2) by (simp_all add: sint_eq_0_iff)
    then have "\<not> (sint nStart \<le> 0 \<and> 0 \<le> sint nEnd)" using fin by linarith
    then have "sum_loop A nStart nEnd 0 =
        Inr (foldl (\<lambda>s i. ld_round A (s + ld_round A (1 / real_of_int i))) 0 [sint nStart..sint nEnd])"
      using fin by (intro sum_loop_finite) auto
    with fin show ?thesis by (simp add: harmonicSeriesEx_def word_sless_alt ascending_sum_def)
  qed
qed

section \<open>The sum of the guess\<close>

lemma ascending_sum_harmonic: "ascending_sum exact 1 (int k) = harmonic k"
proof (induction k)
  case 0
  show ?case by (simp add: ascending_sum_def)
next
  case (Suc k)
  have "[1..int (Suc k)] = [1..int k] @ [int k + 1]"
    using upto_rec2 [of 1 "int k + 1"] by (simp add: add.commute)
  with Suc show ?case by (simp add: ascending_sum_def add.commute)
qed

lemma harmonicSeries_ascending:
  fixes nv :: "'a::len word"
  assumes "0 \<le> sint nv" and "sint nv \<noteq> 2 ^ (LENGTH('a) - 1) - 1"
  shows "harmonicSeries A nv = Inr (ascending_sum A 1 (sint nv))"
proof (cases "nv = 0")
  case True
  then show ?thesis by (simp add: harmonicSeries_def harmonicSeriesEx_def ascending_sum_def)
next
  case False
  then have "sint nv \<noteq> 0" by (simp add: sint_eq_0_iff)
  with assms have pos: "0 < sint nv" by simp
  then have "1 < LENGTH('a)" by (rule positive_long_length)
  then have one: "sint (1 :: 'a word) = 1" by (rule sint_one)
  moreover have "(1 :: 'a word) \<noteq> 0" by simp
  ultimately show ?thesis
    using False pos assms(2)
    by (simp add: harmonicSeries_def harmonicSeriesEx_cases [of A 1 nv])
qed

lemma harmonicSeries_harmonic:
  fixes nv :: "'a::len word"
  assumes "0 \<le> sint nv" and "sint nv \<noteq> 2 ^ (LENGTH('a) - 1) - 1"
  shows "harmonicSeries exact nv = Inr (harmonic (unat nv))"
proof -
  have "ascending_sum exact 1 (sint nv) = harmonic (unat nv)"
    using sint_nonneg_unat [OF assms(1)] by (simp only: ascending_sum_harmonic)
  with harmonicSeries_ascending [OF assms, of exact] show ?thesis by simp
qed

lemma harmonicSeries_negative:
  fixes nv :: "'a::len word"
  assumes "sint nv < 0" and "1 < LENGTH('a)"
  shows "harmonicSeries A nv = Inr 0"
  using assms by (simp add: harmonicSeries_def harmonicSeriesEx_def word_sless_alt sint_one)

lemma harmonicSeries_overflow:
  fixes nv :: "'a::len word"
  assumes "nv \<noteq> 0" and "sint nv = 2 ^ (LENGTH('a) - 1) - 1"
  shows "harmonicSeries A nv = Inl Signed_Overflow"
proof -
  have "sint nv \<noteq> 0" using assms(1) by (simp add: sint_eq_0_iff)
  moreover have "(0::int) \<le> 2 ^ (LENGTH('a) - 1) - 1" by simp
  ultimately have pos: "0 < sint nv" using assms(2) by linarith
  then have "1 < LENGTH('a)" by (rule positive_long_length)
  then have one: "sint (1 :: 'a word) = 1" by (rule sint_one)
  moreover have "(1 :: 'a word) \<noteq> 0" by simp
  ultimately show ?thesis
    using assms pos by (simp add: harmonicSeries_def harmonicSeriesEx_cases [of A 1 nv])
qed

lemma harmonicSeries_returns:
  fixes n0 :: "'a::len word"
  assumes "sint n0 \<noteq> 2 ^ (LENGTH('a) - 1) - 1" and "1 < LENGTH('a)"
  shows "\<exists>s. harmonicSeries A n0 = Inr s"
proof (cases "0 \<le> sint n0")
  case True
  then show ?thesis using assms harmonicSeries_ascending by blast
next
  case False
  then show ?thesis using assms harmonicSeries_negative [of n0] by simp
qed

section \<open>The rounds of the refinement loop\<close>

lemma iter_n: "st_n ((loop_body A ^^ k) st) = st_n st - of_nat k"
  by (induction k) (simp_all add: loop_body_def)

lemma iter_num_tests: "st_num_tests ((loop_body A ^^ k) st) = st_num_tests st + k"
  by (induction k) (simp_all add: loop_body_def)

lemma unat_iter_n:
  fixes st :: "'a::len word search_state"
  assumes "k \<le> unat (st_n st)"
  shows "unat (st_n ((loop_body A ^^ k) st)) = unat (st_n st) - k"
proof -
  have "of_nat k \<le> st_n st"
    using assms by (metis le_unat_uoi word_le_nat_alt)
  moreover have "unat (of_nat k :: 'a word) = k"
    using assms by (rule le_unat_uoi)
  ultimately show ?thesis by (simp add: iter_n unat_sub)
qed

lemma refine_iterates:
  fixes st :: "'a::len word search_state"
  shows "\<exists>k\<le>unat (st_n st). (\<forall>j<k. loop_cond A M ((loop_body A ^^ j) st))
      \<and> \<not> loop_cond A M ((loop_body A ^^ k) st) \<and> refine A M st = (loop_body A ^^ k) st"
proof (induction A M st rule: refine.induct)
  case (1 A M st)
  show ?case
  proof (cases "loop_cond A M st")
    case False
    then have "0 \<le> unat (st_n st) \<and> (\<forall>j<0. loop_cond A M ((loop_body A ^^ j) st))
        \<and> \<not> loop_cond A M ((loop_body A ^^ 0) st) \<and> refine A M st = (loop_body A ^^ 0) st"
      by (simp add: refine.simps [of A M st])
    then show ?thesis by (rule exI [of _ 0])
  next
    case True
    then have nz: "st_n st \<noteq> 0" by (auto simp: loop_cond_def)
    from "1.IH" [OF True] obtain k where k: "k \<le> unat (st_n (loop_body A st))"
      "\<forall>j<k. loop_cond A M ((loop_body A ^^ j) (loop_body A st))"
      "\<not> loop_cond A M ((loop_body A ^^ k) (loop_body A st))"
      "refine A M (loop_body A st) = (loop_body A ^^ k) (loop_body A st)"
      by blast
    have "unat (st_n (loop_body A st)) = unat (st_n st) - 1"
      using nz by (simp add: loop_body_def unat_minus_one)
    moreover have "0 < unat (st_n st)" using nz by (simp add: unat_gt_0)
    ultimately have le: "Suc k \<le> unat (st_n st)" using k(1) by linarith
    have all: "\<forall>j<Suc k. loop_cond A M ((loop_body A ^^ j) st)"
    proof (intro allI impI)
      fix j assume "j < Suc k"
      then show "loop_cond A M ((loop_body A ^^ j) st)"
        using True k(2) by (cases j) (simp_all del: funpow.simps add: funpow_Suc_right)
    qed
    have "\<not> loop_cond A M ((loop_body A ^^ Suc k) st)"
      using k(3) by (simp del: funpow.simps add: funpow_Suc_right)
    moreover have "refine A M st = (loop_body A ^^ Suc k) st"
    proof -
      have "refine A M st = refine A M (loop_body A st)"
        using True by (subst refine.simps) (simp only: if_True)
      also have "\<dots> = (loop_body A ^^ k) (loop_body A st)" by (rule k(4))
      also have "\<dots> = (loop_body A ^^ Suc k) st" by (simp only: funpow_Suc_right o_apply)
      finally show ?thesis .
    qed
    ultimately have "Suc k \<le> unat (st_n st) \<and> (\<forall>j<Suc k. loop_cond A M ((loop_body A ^^ j) st))
        \<and> \<not> loop_cond A M ((loop_body A ^^ Suc k) st) \<and> refine A M st = (loop_body A ^^ Suc k) st"
      using le all by (simp only: simp_thms)
    then show ?thesis by (rule exI [of _ "Suc k"])
  qed
qed

lemma refine_num_steps:
  fixes st :: "'a::len word search_state"
  shows "num_steps A M st \<le> unat (st_n st)
    \<and> (\<forall>j<num_steps A M st. loop_cond A M ((loop_body A ^^ j) st))
    \<and> \<not> loop_cond A M ((loop_body A ^^ num_steps A M st) st)
    \<and> refine A M st = (loop_body A ^^ num_steps A M st) st"
proof -
  obtain k where k: "k \<le> unat (st_n st)" "\<forall>j<k. loop_cond A M ((loop_body A ^^ j) st)"
    "\<not> loop_cond A M ((loop_body A ^^ k) st)" "refine A M st = (loop_body A ^^ k) st"
    using refine_iterates [of st A M] by blast
  then have "num_steps A M st = k" by (simp add: num_steps_def iter_num_tests)
  with k show ?thesis by simp
qed



section \<open>The guess and the search at 0 and at 1\<close>

lemma initial_guess_0:
  assumes "long_double_arith A"
  shows "initial_guess A 0 = Inr (0 :: 'a::len word)"
proof -
  let ?x = "ld_round A (1 * ld_round A EM_N_RATIO)"
  from ld_round_ratio [OF assms]
    ld_round_mono [OF assms, of "9 / 16" "ld_round A EM_N_RATIO"]
    ld_round_mono [OF assms, of "ld_round A EM_N_RATIO" "37 / 64"]
    ld_round_values [OF assms]
  have lo: "9 / 16 \<le> ?x" and hi: "?x \<le> 37 / 64" by simp_all
  have "(1::real) \<le> 2 ^ LENGTH('a)" by simp
  with hi have fit: "?x < 2 ^ LENGTH('a)" by linarith
  have "\<lfloor>?x\<rfloor> = 0" using lo hi by (intro floor_unique) simp_all
  moreover have "0 \<le> ?x" "- 1 < ?x" using lo by linarith+
  ultimately show ?thesis
    using fit by (simp add: initial_guess_def ulong_of_ldouble_def ld_exp_0 [OF assms])
qed

lemma initial_guess_1:
  assumes "long_double_arith A"
  shows "initial_guess A 1 = Inr (1 :: 'a::len word)"
proof -
  let ?p = "ld_exp A 1 * ld_round A EM_N_RATIO"
  let ?x = "ld_round A ?p"
  note e = ld_exp_1 [OF assms] and r = ld_round_ratio [OF assms]
  have "5 / 2 * (1023 / 1024) * (9 / 16) \<le> ?p"
    using e(1) r(1) by (intro mult_mono) simp_all
  then have plo: "1 \<le> ?p" by simp
  have "?p \<le> 3 * (1025 / 1024) * (37 / 64)"
    using e r by (intro mult_mono) simp_all
  then have phi: "?p \<le> 7 / 4" by simp
  from ld_round_mono [OF assms plo] ld_round_mono [OF assms phi] ld_round_values [OF assms]
  have lo: "1 \<le> ?x" and hi: "?x \<le> 7 / 4" by simp_all
  have "(2::real) \<le> 2 ^ LENGTH('a)"
    using power_increasing [of 1 "LENGTH('a)" "2::real"] by simp
  with hi have fit: "?x < 2 ^ LENGTH('a)" by linarith
  have "\<lfloor>?x\<rfloor> = 1" using lo hi by (intro floor_unique) simp_all
  moreover have "0 \<le> ?x" "- 1 < ?x" using lo by linarith+
  ultimately show ?thesis
    using fit by (simp add: initial_guess_def ulong_of_ldouble_def)
qed

lemma search_init_0:
  assumes "long_double_arith A"
  shows "search_init A 0 = Inr \<lparr>st_n = 0 :: 'a::len word, st_sum = 0, st_G_sum = 0, st_num_tests = 0\<rparr>"
proof -
  have "harmonicSeries A (0 :: 'a word) = Inr 0" by (simp add: harmonicSeries_def harmonicSeriesEx_def)
  then show ?thesis
    using initial_guess_0 [OF assms, where 'a='a] by (simp add: search_init_def)
qed

lemma harmonicSeries_1:
  assumes "long_double_arith A" and "2 < LENGTH('a::len)"
  shows "harmonicSeries A (1 :: 'a word) = Inr 1"
proof -
  have one: "sint (1 :: 'a word) = 1" using assms(2) by (intro sint_one) simp
  have "(2::int) ^ 2 \<le> 2 ^ (LENGTH('a) - 1)"
    using assms(2) by (intro power_increasing) simp_all
  then have "sint (1 :: 'a word) \<noteq> 2 ^ (LENGTH('a) - 1) - 1" using one by simp
  then have "harmonicSeries A (1 :: 'a word) = Inr (ascending_sum A 1 (sint (1 :: 'a word)))"
    using one by (intro harmonicSeries_ascending) simp_all
  then show ?thesis
    using one ld_round_values [OF assms(1)] by (simp add: ascending_sum_def)
qed

lemma search_init_1:
  assumes "long_double_arith A" and "2 < LENGTH('a::len)"
  shows "search_init A 1 = Inr \<lparr>st_n = 1 :: 'a word, st_sum = 1, st_G_sum = 1, st_num_tests = 0\<rparr>"
  using assms by (simp add: search_init_def initial_guess_1 harmonicSeries_1)

lemma refine_at_one:
  assumes "long_double_arith A"
  shows "refine A 1 \<lparr>st_n = 1 :: 'a::len word, st_sum = 1, st_G_sum = 1, st_num_tests = 0\<rparr>
    = \<lparr>st_n = 0, st_sum = 0, st_G_sum = 1, st_num_tests = 1\<rparr>"
  using ld_round_values [OF assms] ld_round_DELTA [OF assms]
  by (simp add: refine.simps loop_cond_def loop_body_def)

lemma hseriesThreshold_0:
  assumes "long_double_arith A"
  shows "hseriesThreshold A 0 = Inr (1 :: 'a::len word, 0)"
  by (simp add: hseriesThreshold_def search_init_0 [OF assms] refine.simps loop_cond_def)

lemma hseriesThreshold_1:
  assumes "long_double_arith A" and "2 < LENGTH('a::len)"
  shows "hseriesThreshold A 1 = Inr (1 :: 'a word, 1)"
  by (simp add: hseriesThreshold_def search_init_1 [OF assms] refine_at_one [OF assms(1)])

section \<open>The running sum in exact arithmetic\<close>

lemma search_init_sum:
  fixes st0 :: "'a::len word search_state"
  assumes "search_init exact M = Inr st0" and "0 \<le> sint (st_n st0)"
  shows "st_sum st0 = harmonic (unat (st_n st0))"
proof -
  from assms(1) obtain n0 s0 where n0: "initial_guess exact M = Inr n0" "harmonicSeries exact n0 = Inr s0"
    and st0: "st0 = \<lparr>st_n = n0, st_sum = s0, st_G_sum = s0, st_num_tests = 0\<rparr>"
    by (auto simp: search_init_def split: sum.splits)
  show ?thesis
  proof (cases "n0 = 0")
    case True
    with n0(2) st0 show ?thesis by (simp add: harmonicSeries_def harmonicSeriesEx_def)
  next
    case False
    with n0(2) harmonicSeries_overflow [of n0 exact]
    have "sint n0 \<noteq> 2 ^ (LENGTH('a) - 1) - 1" by auto
    with assms(2) st0 have "harmonicSeries exact n0 = Inr (harmonic (unat n0))"
      by (intro harmonicSeries_harmonic) simp_all
    with n0(2) st0 show ?thesis by simp
  qed
qed

lemma loop_body_sum:
  fixes st :: "'a::len word search_state"
  assumes "loop_cond exact M st" and "st_sum st = harmonic (unat (st_n st))"
  shows "st_sum (loop_body exact st) = harmonic (unat (st_n (loop_body exact st)))"
proof -
  from assms(1) have nz: "st_n st \<noteq> 0" by (auto simp: loop_cond_def)
  then have "0 < unat (st_n st)" by (simp add: unat_gt_0)
  then obtain m where m: "unat (st_n st) = Suc m" by (cases "unat (st_n st)") simp_all
  moreover have "unat (st_n st - 1) = unat (st_n st) - 1" using nz by (rule unat_minus_one)
  ultimately show ?thesis using assms(2) by (simp add: loop_body_def)
qed

lemma iter_sum_harmonic:
  fixes st0 :: "'a::len word search_state"
  assumes "search_init exact M = Inr st0" and "0 \<le> sint (st_n st0)"
    and "\<forall>j<k. loop_cond exact M ((loop_body exact ^^ j) st0)"
  shows "st_sum ((loop_body exact ^^ k) st0) = harmonic (unat (st_n ((loop_body exact ^^ k) st0)))"
  using assms(3)
proof (induction k)
  case 0
  show ?case using search_init_sum [OF assms(1,2)] by simp
next
  case (Suc k)
  then have "loop_cond exact M ((loop_body exact ^^ k) st0)"
    and "st_sum ((loop_body exact ^^ k) st0) = harmonic (unat (st_n ((loop_body exact ^^ k) st0)))"
    by simp_all
  then show ?case using loop_body_sum by simp
qed

lemma harmonic_mono: "m \<le> n \<Longrightarrow> harmonic m \<le> harmonic n"
proof (induction n rule: dec_induct)
  case base
  show ?case by simp
next
  case (step n)
  have "0 \<le> 1 / real (Suc n)" by simp
  moreover have "harmonic (Suc n) = harmonic n + 1 / real (Suc n)" by simp
  ultimately show ?case using step.IH by linarith
qed

section \<open>Guesses at and beyond \<^verbatim>\<open>LONG_MAX\<close>\<close>

text \<open>
  The thresholds at which the product \<open>e\<^sup>M \<cdot> ratio\<close> is a given \<open>y\<close> in the highest
  band, in exact arithmetic.
\<close>

lemma exp_twenty: "exp (20 :: real) \<le> 3486784401"
proof -
  have "exp (1 :: real) ^ 20 \<le> 3 ^ 20" by (intro power_mono exp_le) simp
  moreover have "exp (1 :: real) ^ 20 = exp 20"
    using exp_of_nat_mult [of 20 "1 :: real"] by simp
  ultimately show ?thesis by simp
qed

lemma initial_guess_ln:
  fixes y :: real
  assumes "3486784401 * (5614595 / 10000000) \<le> y" and "y < 2 ^ LENGTH('a::len)"
  shows "20 \<le> ln (y / (5614595 / 10000000))"
    and "initial_guess exact (ln (y / (5614595 / 10000000))) = Inr (word_of_int \<lfloor>y\<rfloor> :: 'a word)"
proof -
  define r :: real where "r = 5614595 / 10000000"
  define M where "M = ln (y / r)"
  have rpos: "0 < r" by (simp add: r_def)
  from assms(1) have ypos: "0 < y" by simp
  then have qpos: "0 < y / r" using rpos by simp
  from assms(1) have "3486784401 \<le> y / r"
    using rpos by (simp add: pos_le_divide_eq r_def)
  with exp_twenty have "exp 20 \<le> y / r" by linarith
  then show M20: "20 \<le> ln (y / (5614595 / 10000000))"
    using qpos unfolding r_def by (simp only: ln_ge_iff)
  then have m: "20 \<le> M" by (simp only: M_def r_def)
  have "exp M = y / r" using qpos by (simp add: M_def)
  then have "exp M * r = y" using rpos by simp
  then have "initial_guess exact M = (ulong_of_ldouble y :: error + 'a word)"
    using m by (simp add: initial_guess_def EM_N_RATIO_COLOSSAL_def r_def)
  also have "\<dots> = Inr (word_of_int \<lfloor>y\<rfloor>)"
    using ypos assms(2) by (simp add: ulong_of_ldouble_def)
  finally show "initial_guess exact (ln (y / (5614595 / 10000000))) = Inr (word_of_int \<lfloor>y\<rfloor> :: 'a word)"
    by (simp only: M_def r_def)
qed

text \<open>
  With a \<^verbatim>\<open>long\<close> of 32 bits: a threshold whose guess is \<open>2\<^sup>3\<^sup>2 - 1\<close>, which is \<open>-1\<close>
  as a \<^verbatim>\<open>long\<close>, and a threshold whose guess is \<^verbatim>\<open>LONG_MAX\<close>.
\<close>

lemma guess_beyond_long:
  "20 \<le> ln ((2 ^ 32 - 1 / 2) / (5614595 / 10000000 :: real))"
  "initial_guess exact (ln ((2 ^ 32 - 1 / 2) / (5614595 / 10000000))) = Inr (4294967295 :: 32 word)"
proof -
  have f: "\<lfloor>2 ^ 32 - 1 / 2 :: real\<rfloor> = 4294967295" by (intro floor_unique) simp_all
  have a: "3486784401 * (5614595 / 10000000) \<le> (2 ^ 32 - 1 / 2 :: real)" by simp
  have b: "(2 ^ 32 - 1 / 2 :: real) < 2 ^ LENGTH(32)" by simp
  show "20 \<le> ln ((2 ^ 32 - 1 / 2) / (5614595 / 10000000 :: real))"
    by (rule initial_guess_ln(1) [OF a b])
  show "initial_guess exact (ln ((2 ^ 32 - 1 / 2) / (5614595 / 10000000))) = Inr (4294967295 :: 32 word)"
    using initial_guess_ln(2) [OF a b] by (simp only: f) simp
qed

lemma search_init_beyond_long:
  "search_init exact (ln ((2 ^ 32 - 1 / 2) / (5614595 / 10000000)))
     = Inr \<lparr>st_n = 4294967295 :: 32 word, st_sum = 0, st_G_sum = 0, st_num_tests = 0\<rparr>"
proof -
  have "harmonicSeries exact (4294967295 :: 32 word) = Inr 0"
    by (rule harmonicSeries_negative) simp_all
  then show ?thesis
    by (simp only: search_init_def guess_beyond_long(2) sum.case)
qed


lemma guess_long_max:
  "20 \<le> ln ((2 ^ 31 - 1 / 2) / (5614595 / 10000000 :: real))"
  "initial_guess exact (ln ((2 ^ 31 - 1 / 2) / (5614595 / 10000000))) = Inr (2147483647 :: 32 word)"
proof -
  have f: "\<lfloor>2 ^ 31 - 1 / 2 :: real\<rfloor> = 2147483647" by (intro floor_unique) simp_all
  have a: "3486784401 * (5614595 / 10000000) \<le> (2 ^ 31 - 1 / 2 :: real)" by simp
  have b: "(2 ^ 31 - 1 / 2 :: real) < 2 ^ LENGTH(32)" by simp
  show "20 \<le> ln ((2 ^ 31 - 1 / 2) / (5614595 / 10000000 :: real))"
    by (rule initial_guess_ln(1) [OF a b])
  show "initial_guess exact (ln ((2 ^ 31 - 1 / 2) / (5614595 / 10000000))) = Inr (2147483647 :: 32 word)"
    using initial_guess_ln(2) [OF a b] by (simp only: f) simp
qed

lemma hseriesThreshold_long_max:
  "hseriesThreshold exact (ln ((2 ^ 31 - 1 / 2) / (5614595 / 10000000)))
     = (Inl Signed_Overflow :: error + 32 word \<times> real)"
proof -
  have "harmonicSeries exact (2147483647 :: 32 word) = Inl Signed_Overflow"
    by (rule harmonicSeries_overflow) simp_all
  then show ?thesis
    by (simp only: hseriesThreshold_def search_init_def guess_long_max(2) sum.case)
qed

section \<open>The summation helper returns the ascending sum\<close>

text \<open>
  Claim C6 says that \<^verbatim>\<open>harmonicSeriesEx\<close> returns the sum for all bounds outside its
  guards. With \<^verbatim>\<open>nEnd = LONG_MAX\<close> it returns nothing: \<^verbatim>\<open>i <= nEnd\<close> holds for every
  \<^verbatim>\<open>long\<close>, and the increment of \<^verbatim>\<open>i\<close> overflows. Here for a \<^verbatim>\<open>long\<close> of 32 bits.
\<close>

theorem harmonicSeriesEx_counterexample:
  "harmonicSeriesEx exact (1 :: 32 word) 2147483647 = Inl Signed_Overflow"
  by (simp add: harmonicSeriesEx_cases)

text \<open>
  Claim C6 as amended. \<^verbatim>\<open>harmonicSeriesEx\<close> returns 0 when \<^verbatim>\<open>nStart\<close> is 0, when
  \<^verbatim>\<open>nEnd\<close> is 0 and when \<^verbatim>\<open>nStart > nEnd\<close>. Otherwise an interval that contains 0
  divides by zero, and with \<^verbatim>\<open>nEnd = LONG_MAX\<close> the increment of \<^verbatim>\<open>i\<close> overflows. In
  every other case it returns the sum of \<open>1/i\<close> for \<open>i\<close> from \<^verbatim>\<open>nStart\<close> to \<^verbatim>\<open>nEnd\<close>
  added in ascending order, every quotient and every partial sum rounded to
  \<^verbatim>\<open>long double\<close>. \<^verbatim>\<open>harmonicSeries n\<close> is \<^verbatim>\<open>harmonicSeriesEx 1 n\<close>. This holds in
  every arithmetic.
\<close>

theorem harmonicSeriesEx_spec:
  fixes nStart nEnd :: "'a::len word"
  shows "harmonicSeriesEx A nStart nEnd =
           (if nStart = 0 \<or> nEnd = 0 \<or> sint nEnd < sint nStart then Inr 0
            else if sint nStart < 0 \<and> 0 < sint nEnd then Inl Division_By_Zero
            else if sint nEnd = 2 ^ (LENGTH('a) - 1) - 1 then Inl Signed_Overflow
            else Inr (foldl (\<lambda>s i. ld_round A (s + ld_round A (1 / real_of_int i))) 0
                        [sint nStart..sint nEnd]))
         \<and> harmonicSeries A nEnd = harmonicSeriesEx A 1 nEnd"
  by (simp only: harmonicSeriesEx_cases [of A nStart nEnd] ascending_sum_def harmonicSeries_def
      simp_thms)

theorem harmonicSeriesEx_spec_witness:
  "harmonicSeriesEx exact (2 :: 64 word) 4 = Inr (1 / 2 + 1 / 3 + 1 / 4)
   \<and> harmonicSeriesEx exact (0 :: 64 word) 4 = Inr 0
   \<and> harmonicSeriesEx exact (3 :: 64 word) 0 = Inr 0
   \<and> harmonicSeriesEx exact (5 :: 64 word) 4 = Inr 0
   \<and> harmonicSeries exact (3 :: 64 word) = Inr (1 + 1 / 2 + 1 / 3)"
  using harmonicSeriesEx_spec [of exact "2 :: 64 word" 4] harmonicSeriesEx_spec [of exact "0 :: 64 word" 4]
    harmonicSeriesEx_spec [of exact "3 :: 64 word" 0] harmonicSeriesEx_spec [of exact "5 :: 64 word" 4]
    harmonicSeriesEx_spec [of exact 1 "3 :: 64 word"]
  by (simp add: upto.simps)

section \<open>The refinement loop ends\<close>

text \<open>
  Claim C9 says that the search returns for every \<open>M \<ge> 0\<close>. With a \<^verbatim>\<open>long\<close> of 32 bits
  and the threshold whose guess is \<^verbatim>\<open>LONG_MAX\<close>, about 22.0647, the full summation
  before the loop does not end: its counter overflows.
\<close>

theorem refine_terminates_counterexample:
  "0 \<le> ln ((2 ^ 31 - 1 / 2) / (5614595 / 10000000 :: real))
   \<and> hseriesThreshold exact (ln ((2 ^ 31 - 1 / 2) / (5614595 / 10000000)))
       = (Inl Signed_Overflow :: error + 32 word \<times> real)"
  using guess_long_max(1) by (simp only: hseriesThreshold_long_max) simp

text \<open>
  Claim C9 as amended. In every arithmetic, from every state at the loop head and for
  every \<open>M\<close>, the loop of \<^verbatim>\<open>hseriesThreshold\<close> ends after a number of rounds that is at
  most \<^verbatim>\<open>n\<close>: in each round the condition holds and \<^verbatim>\<open>n\<close> goes down by one, after the
  last round the condition fails, and the loop hands on the state reached. Whenever the
  guess fits \<^verbatim>\<open>unsigned long\<close> and is not \<^verbatim>\<open>LONG_MAX\<close>, \<^verbatim>\<open>hseriesThreshold\<close> returns
  a value.
\<close>

theorem refine_terminates:
  fixes st :: "'a::len word search_state"
  shows "num_steps A M st \<le> unat (st_n st)
    \<and> (\<forall>j<num_steps A M st. loop_cond A M ((loop_body A ^^ j) st)
          \<and> unat (st_n ((loop_body A ^^ Suc j) st)) + 1 = unat (st_n ((loop_body A ^^ j) st)))
    \<and> \<not> loop_cond A M ((loop_body A ^^ num_steps A M st) st)
    \<and> refine A M st = (loop_body A ^^ num_steps A M st) st
    \<and> (\<forall>n0 :: 'a word. 1 < LENGTH('a) \<and> initial_guess A M = Inr n0 \<and> sint n0 \<noteq> 2 ^ (LENGTH('a) - 1) - 1
          \<longrightarrow> (\<exists>N G. hseriesThreshold A M = Inr (N :: 'a word, G)))"
proof -
  note ns = refine_num_steps [of A M st]
  have dec: "unat (st_n ((loop_body A ^^ Suc j) st)) + 1 = unat (st_n ((loop_body A ^^ j) st))"
    if "j < num_steps A M st" for j
  proof -
    from that ns have "Suc j \<le> unat (st_n st)" by linarith
    then show ?thesis using unat_iter_n [of "Suc j" st A] unat_iter_n [of j st A] by simp
  qed
  have ret: "\<exists>N G. hseriesThreshold A M = Inr (N :: 'a word, G)"
    if "1 < LENGTH('a)" "initial_guess A M = Inr n0" "sint n0 \<noteq> 2 ^ (LENGTH('a) - 1) - 1"
    for n0 :: "'a word"
  proof -
    from harmonicSeries_returns [OF that(3,1)] obtain s where "harmonicSeries A n0 = Inr s" ..
    with that(2) show ?thesis by (simp add: hseriesThreshold_def search_init_def Let_def)
  qed
  from ns dec ret show ?thesis by blast
qed

theorem refine_terminates_witness:
  "num_steps exact 1 \<lparr>st_n = 1 :: 64 word, st_sum = 1, st_G_sum = 1, st_num_tests = 0\<rparr> = 1
   \<and> loop_cond exact 1 \<lparr>st_n = 1 :: 64 word, st_sum = 1, st_G_sum = 1, st_num_tests = 0\<rparr>
   \<and> \<not> loop_cond exact 1 (loop_body exact \<lparr>st_n = 1 :: 64 word, st_sum = 1, st_G_sum = 1, st_num_tests = 0\<rparr>)
   \<and> refine exact 1 \<lparr>st_n = 1 :: 64 word, st_sum = 1, st_G_sum = 1, st_num_tests = 0\<rparr>
       = \<lparr>st_n = 0, st_sum = 0, st_G_sum = 1, st_num_tests = 1\<rparr>
   \<and> initial_guess exact 1 = Inr (1 :: 64 word)
   \<and> (\<exists>N G. hseriesThreshold exact 1 = Inr (N :: 64 word, G))"
proof -
  let ?st = "\<lparr>st_n = 1 :: 64 word, st_sum = 1, st_G_sum = 1, st_num_tests = 0\<rparr>"
  have r: "refine exact 1 ?st = \<lparr>st_n = 0, st_sum = 0, st_G_sum = 1, st_num_tests = 1\<rparr>"
    by (rule refine_at_one [OF long_double_arith_exact])
  then have k: "num_steps exact 1 ?st = 1" by (simp add: num_steps_def)
  have g: "initial_guess exact 1 = Inr (1 :: 64 word)"
    by (rule initial_guess_1 [OF long_double_arith_exact])
  from refine_terminates [of exact 1 ?st] k g r show ?thesis
    by (simp add: loop_body_def)
qed

section \<open>The running sum\<close>

text \<open>
  Claim C4 says that the accumulator is the harmonic sum of the current \<^verbatim>\<open>n\<close> from the
  full summation on. With a \<^verbatim>\<open>long\<close> of 32 bits and the threshold whose guess is
  \<open>2\<^sup>3\<^sup>2 - 1\<close>, about 22.7578, the guess is negative as the \<^verbatim>\<open>long\<close> argument of
  \<^verbatim>\<open>harmonicSeries\<close>, and the state at the loop head holds the sum 0 for that \<^verbatim>\<open>n\<close>,
  in exact arithmetic.
\<close>

theorem running_sum_counterexample:
  "0 \<le> ln ((2 ^ 32 - 1 / 2) / (5614595 / 10000000 :: real))
   \<and> search_init exact (ln ((2 ^ 32 - 1 / 2) / (5614595 / 10000000)))
       = Inr \<lparr>st_n = 4294967295 :: 32 word, st_sum = 0, st_G_sum = 0, st_num_tests = 0\<rparr>
   \<and> (0 :: real) \<noteq> harmonic (unat (4294967295 :: 32 word))"
proof -
  have "harmonic 1 \<le> harmonic (unat (4294967295 :: 32 word))"
    by (rule harmonic_mono) simp
  then have "(0 :: real) \<noteq> harmonic (unat (4294967295 :: 32 word))" by simp
  with guess_beyond_long(1) show ?thesis by (simp only: search_init_beyond_long) simp
qed

text \<open>
  Claim C4 as amended. In exact arithmetic, when the guess fits a \<^verbatim>\<open>long\<close>, the
  accumulator \<^verbatim>\<open>sum\<close> is the harmonic sum of the current \<^verbatim>\<open>n\<close> after the full
  summation at the guess, after every round of the loop, and in the state the loop hands
  on.
\<close>

theorem running_sum_invariant:
  fixes st0 :: "'a::len word search_state"
  assumes "search_init exact M = Inr st0" and "0 \<le> sint (st_n st0)"
  shows "(\<forall>k\<le>num_steps exact M st0.
            st_sum ((loop_body exact ^^ k) st0) = harmonic (unat (st_n ((loop_body exact ^^ k) st0))))
    \<and> st_sum (refine exact M st0) = harmonic (unat (st_n (refine exact M st0)))"
proof -
  note ns = refine_num_steps [of exact M st0]
  have inv: "st_sum ((loop_body exact ^^ k) st0) = harmonic (unat (st_n ((loop_body exact ^^ k) st0)))"
    if "k \<le> num_steps exact M st0" for k
  proof -
    from that ns have "\<forall>j<k. loop_cond exact M ((loop_body exact ^^ j) st0)" by simp
    with assms show ?thesis by (rule iter_sum_harmonic)
  qed
  moreover from inv [of "num_steps exact M st0"] ns
  have "st_sum (refine exact M st0) = harmonic (unat (st_n (refine exact M st0)))" by simp
  ultimately show ?thesis by blast
qed

theorem running_sum_invariant_witness:
  "search_init exact 1 = Inr \<lparr>st_n = 1 :: 64 word, st_sum = 1, st_G_sum = 1, st_num_tests = 0\<rparr>
   \<and> 0 \<le> sint (1 :: 64 word)
   \<and> num_steps exact 1 \<lparr>st_n = 1 :: 64 word, st_sum = 1, st_G_sum = 1, st_num_tests = 0\<rparr> = 1
   \<and> st_sum (loop_body exact \<lparr>st_n = 1 :: 64 word, st_sum = 1, st_G_sum = 1, st_num_tests = 0\<rparr>)
       = harmonic (unat (st_n (loop_body exact \<lparr>st_n = 1 :: 64 word, st_sum = 1, st_G_sum = 1, st_num_tests = 0\<rparr>)))
   \<and> st_sum (refine exact 1 \<lparr>st_n = 1 :: 64 word, st_sum = 1, st_G_sum = 1, st_num_tests = 0\<rparr>)
       = harmonic (unat (st_n (refine exact 1 \<lparr>st_n = 1 :: 64 word, st_sum = 1, st_G_sum = 1, st_num_tests = 0\<rparr>)))"
proof -
  let ?st = "\<lparr>st_n = 1 :: 64 word, st_sum = 1, st_G_sum = 1, st_num_tests = 0\<rparr>"
  have init: "search_init exact 1 = Inr ?st" by (simp add: search_init_1 long_double_arith_exact)
  have fit: "0 \<le> sint (st_n ?st)" by simp
  have r: "refine exact 1 ?st = \<lparr>st_n = 0, st_sum = 0, st_G_sum = 1, st_num_tests = 1\<rparr>"
    by (rule refine_at_one [OF long_double_arith_exact])
  then have k: "num_steps exact 1 ?st = 1" by (simp add: num_steps_def)
  from running_sum_invariant [OF init fit] have
    every: "\<forall>k\<le>num_steps exact 1 ?st.
      st_sum ((loop_body exact ^^ k) ?st) = harmonic (unat (st_n ((loop_body exact ^^ k) ?st)))"
    and fin: "st_sum (refine exact 1 ?st) = harmonic (unat (st_n (refine exact 1 ?st)))"
    by blast+
  from every k have "st_sum ((loop_body exact ^^ 1) ?st) = harmonic (unat (st_n ((loop_body exact ^^ 1) ?st)))"
    by (metis le_refl)
  then have "st_sum (loop_body exact ?st) = harmonic (unat (st_n (loop_body exact ?st)))" by simp
  with init k fin show ?thesis by simp
qed

section \<open>The sum reported for the threshold 0\<close>

text \<open>
  Claim C5, at the input \<open>M = 0\<close>: the search returns 1 and leaves 0 in \<^verbatim>\<open>G_sum\<close>,
  while the harmonic sum at 1 is 1. This is so in exact arithmetic and in every
  \<^verbatim>\<open>long double\<close> arithmetic.
\<close>

theorem G_sum_at_zero:
  "(hseriesThreshold exact 0 = Inr (1 :: 'a::len word, 0) \<and> harmonic (unat (1 :: 'a word)) = 1)
   \<and> (long_double_arith A \<longrightarrow> hseriesThreshold A 0 = Inr (1 :: 'a word, 0))"
  by (simp add: hseriesThreshold_0 long_double_arith_exact)

theorem G_sum_at_zero_witness:
  "long_double_arith exact \<and> hseriesThreshold exact 0 = Inr (1 :: 64 word, 0)
   \<and> harmonic (unat (1 :: 64 word)) = 1"
  using G_sum_at_zero [where 'a=64, of exact] long_double_arith_exact by simp

section \<open>The threshold 1\<close>

lemma crossing_point_one: "crossing_point 1 2" "\<not> crossing_point 1 (Suc 0)"
  by (simp_all add: crossing_point_def eval_nat_numeral less_Suc_eq)

lemma crossing_point_zero: "crossing_point 0 (Suc 0)"
  by (simp add: crossing_point_def)

text \<open>
  Claim C1, at the input \<open>M = 1\<close>, in every \<^verbatim>\<open>long double\<close> arithmetic and with a
  \<^verbatim>\<open>long\<close> of more than two bits: the search returns 1, where the harmonic sum is 1 and
  does not exceed \<open>M\<close>; the minimal crossing point of 1 is 2.
\<close>

theorem threshold_not_crossing:
  assumes "long_double_arith A" and "2 < LENGTH('a::len)"
  shows "hseriesThreshold A 1 = Inr (1 :: 'a word, 1)
    \<and> \<not> harmonic (unat (1 :: 'a word)) > 1
    \<and> \<not> crossing_point 1 (unat (1 :: 'a word)) \<and> crossing_point 1 2"
  using assms by (simp add: hseriesThreshold_1 crossing_point_one)

theorem threshold_not_crossing_witness:
  "long_double_arith exact \<and> 2 < LENGTH(64)
   \<and> hseriesThreshold exact 1 = Inr (1 :: 64 word, 1)
   \<and> \<not> harmonic (unat (1 :: 64 word)) > 1
   \<and> \<not> crossing_point 1 (unat (1 :: 64 word)) \<and> crossing_point 1 2"
  using threshold_not_crossing [where 'a=64, of exact] long_double_arith_exact by simp

text \<open>
  Claim C2, at its input \<open>M = 1\<close>, in every \<^verbatim>\<open>long double\<close> arithmetic and with a
  \<^verbatim>\<open>long\<close> of more than two bits: the search returns 1, not 2, and leaves 1 in
  \<^verbatim>\<open>G_sum\<close>. The sum at 1 is 1, within \<^verbatim>\<open>DELTA\<close> of \<open>M\<close>, so the loop condition
  \<^verbatim>\<open>(sum - M) > -DELTA\<close> holds there and the loop removes the term; the sum at 0 is
  not within \<^verbatim>\<open>DELTA\<close>, and the sum at 2 is \<open>3/2\<close>.
\<close>

theorem threshold_at_one:
  assumes "long_double_arith A" and "2 < LENGTH('a::len)"
  shows "hseriesThreshold A 1 = Inr (1 :: 'a word, 1) \<and> (1 :: 'a word) \<noteq> 2
    \<and> harmonic 1 - 1 > - DELTA \<and> \<not> harmonic 0 - 1 > - DELTA
    \<and> harmonic 1 = 1 \<and> harmonic 2 = 3 / 2"
proof -
  have "(1 :: 'a word) \<noteq> 2"
  proof
    assume "(1 :: 'a word) = 2"
    then have "(1 :: 'a word) + 0 = 1 + 1" by simp
    then have "(0 :: 'a word) = 1" by (simp only: add_left_cancel)
    then show False by simp
  qed
  then show ?thesis
    using assms by (simp add: hseriesThreshold_1 DELTA_def eval_nat_numeral)
qed

theorem threshold_at_one_witness:
  "long_double_arith exact \<and> 2 < LENGTH(32) \<and> hseriesThreshold exact 1 = Inr (1 :: 32 word, 1)
    \<and> (1 :: 32 word) \<noteq> 2
    \<and> harmonic 1 - 1 > - DELTA \<and> \<not> harmonic 0 - 1 > - DELTA"
  using threshold_at_one [where 'a=32, of exact] long_double_arith_exact by simp

section \<open>The initial guess\<close>

text \<open>
  Claim C3, at the inputs \<open>M = 0\<close> and \<open>M = 1\<close>, in every \<^verbatim>\<open>long double\<close> arithmetic:
  the guess is 0 where the minimal crossing point is 1, and 1 where the minimal crossing
  point is 2. The guess is below the crossing point, and from the guess 0 the loop body
  does not run.
\<close>

theorem initial_guess_below:
  assumes "long_double_arith A"
  shows "initial_guess A 0 = Inr (0 :: 'a::len word) \<and> crossing_point 0 1
    \<and> \<not> 1 \<le> unat (0 :: 'a word)
    \<and> initial_guess A 1 = Inr (1 :: 'a word) \<and> crossing_point 1 2
    \<and> \<not> 2 \<le> unat (1 :: 'a word)
    \<and> num_steps A 0 \<lparr>st_n = 0 :: 'a word, st_sum = 0, st_G_sum = 0, st_num_tests = 0\<rparr> = 0"
  using assms
  by (simp add: initial_guess_0 initial_guess_1 crossing_point_one crossing_point_zero
      num_steps_def refine.simps loop_cond_def)

theorem initial_guess_below_witness:
  "long_double_arith exact
   \<and> initial_guess exact 0 = Inr (0 :: 64 word) \<and> crossing_point 0 1
   \<and> initial_guess exact 1 = Inr (1 :: 64 word) \<and> crossing_point 1 2"
  using initial_guess_below [where 'a=64, of exact] long_double_arith_exact by simp

section \<open>The command line\<close>

text \<open>
  Claim C8. A wrong number of arguments, characters left over by \<^verbatim>\<open>strtold\<close> and a
  negative value each make \<^verbatim>\<open>main\<close> print one message and return \<open>-1\<close> without calling
  \<^verbatim>\<open>hseriesThreshold\<close>; when the search returns, \<^verbatim>\<open>main\<close> prints the two result lines
  and returns 0. This holds in every arithmetic.
\<close>

theorem main_error_paths:
  fixes strtold :: "string \<Rightarrow> ldouble \<times> string"
  shows "(length args \<noteq> 1 \<longrightarrow>
            (main A strtold prog args :: 'a::len word event list) = [Print (Usage prog), Return (- 1)])
    \<and> (length args = 1 \<and> snd (strtold (args ! 0)) \<noteq> [] \<longrightarrow>
            (main A strtold prog args :: 'a word event list) = [Print (Invalid_Input prog), Return (- 1)])
    \<and> (length args = 1 \<and> snd (strtold (args ! 0)) = [] \<and> ld_negative (fst (strtold (args ! 0))) \<longrightarrow>
            (main A strtold prog args :: 'a word event list) = [Print Must_Be_Nonnegative, Return (- 1)])
    \<and> (\<forall>(N :: 'a word) G. length args = 1 \<and> snd (strtold (args ! 0)) = []
            \<and> \<not> ld_negative (fst (strtold (args ! 0)))
            \<and> hseriesThreshold_ld A (fst (strtold (args ! 0))) = Inr (N, G) \<longrightarrow>
            main A strtold prog args =
              [Call_hseriesThreshold (fst (strtold (args ! 0))),
               Print (Threshold_Line (fst (strtold (args ! 0))) N), Print (Sum_Line N G), Return 0])"
  by (auto simp: main_def split: prod.splits)

theorem main_error_paths_witness:
  "(main exact strtold_examples ''hseries'' [] :: 64 word event list) = [Print (Usage ''hseries''), Return (- 1)]
   \<and> (main exact strtold_examples ''hseries'' [''1'', ''1''] :: 64 word event list)
       = [Print (Usage ''hseries''), Return (- 1)]
   \<and> (main exact strtold_examples ''hseries'' [''1x''] :: 64 word event list)
       = [Print (Invalid_Input ''hseries''), Return (- 1)]
   \<and> (main exact strtold_examples ''hseries'' [''-1''] :: 64 word event list)
       = [Print Must_Be_Nonnegative, Return (- 1)]
   \<and> (main exact strtold_examples ''hseries'' [''1''] :: 64 word event list)
       = [Call_hseriesThreshold (Finite 1), Print (Threshold_Line (Finite 1) 1),
          Print (Sum_Line 1 1), Return 0]"
proof -
  have h: "hseriesThreshold_ld exact (Finite 1) = Inr (1 :: 64 word, 1)"
    by (simp add: hseriesThreshold_1 long_double_arith_exact)
  show ?thesis
    using main_error_paths [of "[]" exact strtold_examples "''hseries''", where 'a=64]
      main_error_paths [of "[''1'', ''1'']" exact strtold_examples "''hseries''", where 'a=64]
      main_error_paths [of "[''1x'']" exact strtold_examples "''hseries''", where 'a=64]
      main_error_paths [of "[''-1'']" exact strtold_examples "''hseries''", where 'a=64]
      main_error_paths [of "[''1'']" exact strtold_examples "''hseries''", where 'a=64] h
    by (simp add: strtold_examples_def)
qed

text \<open>
  Claim C10. Whatever \<^verbatim>\<open>strtold\<close> consumes to the end is accepted: the invalid-input
  message is not printed, and unless the value compares less than 0 it is passed to
  \<^verbatim>\<open>hseriesThreshold\<close>, also when it is an infinity, a NaN, or the 0 of the empty
  string. This holds in every arithmetic.
\<close>

theorem main_accepts_consumed:
  fixes strtold :: "string \<Rightarrow> ldouble \<times> string"
  assumes "strtold arg = (M, [])"
  shows "Print (Invalid_Input prog) \<notin> set (main A strtold prog [arg] :: 'a::len word event list)
    \<and> (\<not> ld_negative M \<longrightarrow>
          (main A strtold prog [arg] :: 'a word event list) =
            Call_hseriesThreshold M #
            (case hseriesThreshold_ld A M of
               Inl e \<Rightarrow> [Undefined e]
             | Inr (N, G) \<Rightarrow> [Print (Threshold_Line M N), Print (Sum_Line N G), Return 0]))"
  using assms by (auto simp: main_def split: sum.splits)

theorem main_accepts_consumed_witness:
  "(main exact strtold_examples ''hseries'' [''inf''] :: 64 word event list)
       = [Call_hseriesThreshold PosInf, Undefined Cast_Out_Of_Range]
   \<and> (main exact strtold_examples ''hseries'' [''nan''] :: 64 word event list)
       = [Call_hseriesThreshold NaN, Undefined Cast_Out_Of_Range]
   \<and> (main exact strtold_examples ''hseries'' [''''] :: 64 word event list)
       = [Call_hseriesThreshold (Finite 0), Print (Threshold_Line (Finite 0) 1),
          Print (Sum_Line 1 0), Return 0]"
proof -
  have i: "strtold_examples ''inf'' = (PosInf, [])" and n: "strtold_examples ''nan'' = (NaN, [])"
    and e: "strtold_examples '''' = (Finite 0, [])"
    by (simp_all add: strtold_examples_def)
  show ?thesis
    using main_accepts_consumed [of strtold_examples "''inf''" PosInf "''hseries''" exact, where 'a=64]
      main_accepts_consumed [of strtold_examples "''nan''" NaN "''hseries''" exact, where 'a=64]
      main_accepts_consumed [of strtold_examples "[]" "Finite 0" "''hseries''" exact, where 'a=64]
      i n e
    by (simp add: hseriesThreshold_0 long_double_arith_exact)
qed

section \<open>Bounds for the harmonic sums\<close>


















section \<open>The guess and the crossing point in exact arithmetic\<close>

lemmas ratio_defs = ratio_def EM_N_RATIO_def EM_N_RATIO_MEDIUM_def EM_N_RATIO_LARGE_def
  EM_N_RATIO_VERY_LARGE_def EM_N_RATIO_HUGE_def EM_N_RATIO_COLOSSAL_def

lemma ratio_bounds: "5614595 / 10000000 \<le> ratio M" "ratio M \<le> 564 / 1000" "0 < ratio M"
  by (simp_all add: ratio_defs)

lemma ratio_small: "M < 9 \<Longrightarrow> ratio M = 564 / 1000"
  by (simp add: ratio_defs)

lemma initial_guess_floor:
  "(initial_guess exact M :: error + 'a::len word) =
     (if exp M * ratio M < 2 ^ LENGTH('a) then Inr (word_of_int \<lfloor>exp M * ratio M\<rfloor>)
      else Inl Cast_Out_Of_Range)"
proof -
  have pos: "0 < exp M * ratio M" using ratio_bounds(3) by simp
  then have "ulong_of_ldouble (exp M * ratio M) =
     (if exp M * ratio M < 2 ^ LENGTH('a) then Inr (word_of_int \<lfloor>exp M * ratio M\<rfloor> :: 'a word)
      else Inl Cast_Out_Of_Range)"
    by (simp add: ulong_of_ldouble_def)
  moreover have "(initial_guess exact M :: error + 'a word) = ulong_of_ldouble (exp M * ratio M)"
    by (simp add: initial_guess_def ratio_def)
  ultimately show ?thesis by simp
qed



section \<open>The value returned by the search in exact arithmetic\<close>

lemma unat_fits_long:
  fixes nv :: "'a::len word"
  assumes "0 \<le> sint nv"
  shows "unat nv < 2 ^ (LENGTH('a) - 1)"
proof -
  have "int (unat nv) = sint nv" using sint_nonneg_unat [OF assms] by simp
  moreover have "sint nv < 2 ^ (LENGTH('a) - 1)" by (rule sint_lt)
  ultimately have "int (unat nv) < 2 ^ (LENGTH('a) - 1)" by simp
  then show ?thesis by (metis of_nat_less_iff of_nat_numeral of_nat_power)
qed

lemma unat_succ_below:
  fixes x :: "'a::len word"
  assumes "unat x < 2 ^ (LENGTH('a) - 1)"
  shows "unat (x + 1) = unat x + 1"
proof -
  have "(2::nat) ^ (LENGTH('a) - 1) < 2 ^ LENGTH('a)"
    by (rule power_strict_increasing) simp_all
  moreover have "unat (1 :: 'a word) \<le> 1" by simp
  ultimately have "unat x + unat (1 :: 'a word) < 2 ^ LENGTH('a)" using assms by linarith
  then have "unat (x + 1) = unat x + unat (1 :: 'a word)" by (simp only: unat_add_lem)
  then show ?thesis by simp
qed


text \<open>
  The value left in \<^verbatim>\<open>G_sum\<close>: the sum at the value returned when the loop body has
  run, the sum one below it when the body has not run.
\<close>

lemma G_sum_value:
  fixes n0 N :: "'a::len word" and st0 :: "'a word search_state"
  assumes g: "initial_guess exact M = Inr n0" and fit: "0 \<le> sint n0"
    and r: "hseriesThreshold exact M = Inr (N, G)" and i: "search_init exact M = Inr st0"
  shows "G = (if num_steps exact M st0 = 0 then harmonic (unat N - 1) else harmonic (unat N))"
proof -
  from r i have N: "N = st_n (refine exact M st0) + 1" and G: "G = st_G_sum (refine exact M st0)"
    by (auto simp: hseriesThreshold_def Let_def)
  from i g have n0: "st_n st0 = n0" by (auto simp: search_init_def split: sum.splits)
  from i have G0: "st_G_sum st0 = st_sum st0" by (auto simp: search_init_def split: sum.splits)
  define k where "k = num_steps exact M st0"
  have k: "k \<le> unat n0" "\<forall>j<k. loop_cond exact M ((loop_body exact ^^ j) st0)"
    "refine exact M st0 = (loop_body exact ^^ k) st0"
    using refine_num_steps [of exact M st0] by (simp_all add: k_def n0)
  have ufin: "unat (st_n ((loop_body exact ^^ k) st0)) = unat n0 - k"
    using unat_iter_n [of k st0 exact] k(1) n0 by simp
  have "unat (st_n ((loop_body exact ^^ k) st0)) < 2 ^ (LENGTH('a) - 1)"
    using ufin unat_fits_long [OF fit] by simp
  then have uN: "unat N = unat n0 - k + 1"
    using N k(3) ufin by (simp add: unat_succ_below)
  show ?thesis
  proof (cases k)
    case 0
    then have "G = st_sum st0" using G k(3) G0 by simp
    also have "\<dots> = harmonic (unat n0)" using search_init_sum [OF i] fit n0 by simp
    finally show ?thesis using 0 uN by (simp add: k_def)
  next
    case (Suc j)
    let ?p = "(loop_body exact ^^ j) st0"
    have "\<forall>i<j. loop_cond exact M ((loop_body exact ^^ i) st0)" using k(2) Suc by simp
    then have "st_sum ?p = harmonic (unat (st_n ?p))"
      using i fit n0 by (intro iter_sum_harmonic) simp_all
    moreover have "unat (st_n ?p) = unat n0 - j"
      using unat_iter_n [of j st0 exact] k(1) n0 Suc by simp
    moreover have "unat n0 - j = unat N" using uN k(1) Suc by simp
    moreover have "G = st_sum ?p" using G k(3) Suc by (simp add: loop_body_def)
    ultimately show ?thesis using Suc by (simp add: k_def)
  qed
qed




lemma exp_six_fifths: "(22 / 10 :: real) \<le> exp (6 / 5)" "exp (6 / 5 :: real) \<le> 35 / 10"
proof -
  show "(22 / 10 :: real) \<le> exp (6 / 5)" using exp_ge_add_one_self [of "6 / 5 :: real"] by simp
  have "exp (3 / 40 :: real) \<le> 1 + 3 / 40 + (3 / 40)\<^sup>2" by (rule exp_bound) simp_all
  then have "exp (3 / 40 :: real) \<le> 1729 / 1600" by (simp add: power2_eq_square)
  then have "exp (3 / 40 :: real) ^ 16 \<le> (1729 / 1600) ^ 16" by (intro power_mono) simp_all
  moreover have "exp (3 / 40 :: real) ^ 16 = exp (6 / 5)"
    using exp_of_nat_mult [of 16 "3 / 40 :: real"] by simp
  moreover have "(1729 / 1600 :: real) ^ 16 \<le> 35 / 10" by (simp add: power_divide)
  ultimately show "exp (6 / 5 :: real) \<le> 35 / 10" by linarith
qed

lemma initial_guess_six_fifths: "initial_guess exact (6 / 5) = Inr (1 :: 'a::len word)"
proof -
  let ?x = "exp (6 / 5 :: real) * ratio (6 / 5)"
  have x: "?x = exp (6 / 5) * (564 / 1000)" by (simp add: ratio_small)
  have lo: "1 \<le> ?x" and hi: "?x < 2" using exp_six_fifths unfolding x by simp_all
  have "1 \<le> LENGTH('a)" using len_gt_0 [where 'a='a] by linarith
  then have "(2::real) ^ 1 \<le> 2 ^ LENGTH('a)" by (intro power_increasing) simp_all
  then have "(2::real) \<le> 2 ^ LENGTH('a)" by simp
  with hi have fit: "?x < 2 ^ LENGTH('a)" by linarith
  have "\<lfloor>?x\<rfloor> = 1" using lo hi by (intro floor_unique) simp_all
  with fit show ?thesis by (simp add: initial_guess_floor)
qed

lemma hseriesThreshold_six_fifths:
  assumes "2 < LENGTH('a::len)"
  shows "hseriesThreshold exact (6 / 5) = Inr (2 :: 'a word, 1)"
  using assms
  by (simp add: hseriesThreshold_def search_init_def initial_guess_six_fifths
      harmonicSeries_1 [OF long_double_arith_exact] refine.simps loop_cond_def DELTA_def)
section \<open>Monotonicity\<close>




end
